theory Spec2Isabelle
  imports Main
begin

section \<open>Python strings\<close>

text \<open>
  A Python \<open>str\<close> is the list of its code points; a literal of the source is written
  \<open>lit ''...''\<close>.

  \<open>str.isspace\<close>, which also says where \<open>split()\<close> cuts and what \<open>strip()\<close> removes,
  holds of 29 code points, all listed in \<open>isspace\<close>.

  The case tables are Python's on the code points 0..255 and 978..980. There the
  uppercase characters are A..Z and 192..222 without 215, which \<open>lower()\<close> moves up by
  32, and the Greek upsilon hook symbols 978..980, which are uppercase and which
  \<open>lower()\<close> keeps. Every other code point is taken to have no case, which is not what
  Python does on most alphabets. The facts below about all strings use no property of
  the case tables, and the strings that are evaluated are made of the code points
  above. The one exception is \<open>Meeting_not_lowered\<close>: it reads the table of \<open>lower()\<close>
  on every code point, and what it says, that \<open>lower()\<close> returns no \<open>M\<close>, holds of
  Python as well.
\<close>

type_synonym code_point = nat
type_synonym str = "code_point list"

definition lit :: "string \<Rightarrow> str" where
  "lit s = map of_char s"

definition isspace :: "code_point \<Rightarrow> bool" where
  "isspace c = (c \<in> {9, 10, 11, 12, 13, 28, 29, 30, 31, 32, 133, 160, 5760,
                       8192, 8193, 8194, 8195, 8196, 8197, 8198, 8199, 8200, 8201, 8202,
                       8232, 8233, 8239, 8287, 12288})"

definition isupper :: "code_point \<Rightarrow> bool" where
  "isupper c = ((65 \<le> c \<and> c \<le> 90) \<or> (192 \<le> c \<and> c \<le> 222 \<and> c \<noteq> 215)
                \<or> (978 \<le> c \<and> c \<le> 980))"

definition lower_char :: "code_point \<Rightarrow> code_point" where
  "lower_char c =
     (if (65 \<le> c \<and> c \<le> 90) \<or> (192 \<le> c \<and> c \<le> 222 \<and> c \<noteq> 215) then c + 32 else c)"

text \<open>\<open>s.lower()\<close>\<close>

definition py_lower :: "str \<Rightarrow> str" where
  "py_lower s = map lower_char s"

text \<open>\<open>s.strip()\<close>: leading and trailing whitespace removed.\<close>

definition py_strip :: "str \<Rightarrow> str" where
  "py_strip s = rev (dropWhile isspace (rev (dropWhile isspace s)))"

text \<open>
  \<open>s.split()\<close>: the maximal runs of non-whitespace characters, in order. The first
  argument of \<open>split_acc\<close> is the token being read.
\<close>

fun split_acc :: "str \<Rightarrow> str \<Rightarrow> str list" where
  "split_acc cur [] = (if cur = [] then [] else [cur])"
| "split_acc cur (c # cs) =
     (if isspace c then (if cur = [] then split_acc [] cs else cur # split_acc [] cs)
      else split_acc (cur @ [c]) cs)"

definition py_split :: "str \<Rightarrow> str list" where
  "py_split s = split_acc [] s"

text \<open>\<open>sub in s\<close> on strings: \<open>sub\<close> occurs in \<open>s\<close> as a contiguous substring.\<close>

fun py_in :: "str \<Rightarrow> str \<Rightarrow> bool" where
  "py_in sub [] = (sub = [])"
| "py_in sub (c # cs) = (take (length sub) (c # cs) = sub \<or> py_in sub cs)"


section \<open>Data model\<close>

text \<open>A note is the dict \<open>{'content': ..., 'category': ...}\<close>.\<close>

record Note =
  content :: str
  category :: str

text \<open>
  \<open>self.categories\<close> is a dict from category name to keyword list. Its iteration order
  (insertion order) decides the result of \<open>max\<close>, so it is an association list in
  insertion order; a dict has no key twice, which is \<open>distinct (map fst cs)\<close>.
  \<open>self.keyword_weights\<close> is only read with \<open>get\<close> and written by key: a map.
\<close>

type_synonym categories_dict = "(str \<times> str list) list"
type_synonym weights_dict = "str \<rightharpoonup> int"

record NoteManager =
  data_file :: str
  "notes" :: "Note list"
  categories :: categories_dict
  keyword_weights :: weights_dict

definition NoteManager_init :: "str \<Rightarrow> NoteManager" where
  "NoteManager_init f =
     \<lparr>data_file = f, notes = [], categories = [], keyword_weights = Map.empty\<rparr>"

text \<open>The only exception that escapes a method: \<open>max\<close> of an empty dict.\<close>

datatype exn = ValueError


section \<open>The environment: files and printed messages\<close>

text \<open>
  A file holds the JSON document that \<open>json.dump\<close> wrote and \<open>json.load\<close> reads back:
  the array of notes that \<open>export_notes\<close> writes, or an object whose keys \<open>notes\<close>,
  \<open>categories\<close> and \<open>keyword_weights\<close> may each be missing. A file may also be absent
  or hold text that is not JSON. Whether \<open>open(path, 'w')\<close> succeeds is the
  environment's \<open>writable\<close>.
\<close>

datatype json_doc =
    Json_Array "Note list"
  | Json_Object "Note list option" "categories_dict option" "weights_dict option"

datatype file_content = Absent | Malformed | Document json_doc

text \<open>One constructor for each \<open>print\<close> of the class.\<close>

datatype report =
    Loading_data str
  | Data_loaded
  | File_not_found str
  | Invalid_file_format
  | Unexpected_error
  | Data_saved
  | Error_saving_data
  | Error_category_empty
  | Error_keywords_empty
  | Error_category_exists str
  | Category_added str "str list"
  | Error_note_empty
  | Note_added str
  | Error_category_missing str
  | No_notes_available
  | Viewing_all_notes
  | Note_line str str
  | Error_keyword_empty
  | No_notes_found str
  | Error_filename_empty
  | Notes_exported str
  | Error_exporting_notes

record world =
  files :: "str \<Rightarrow> file_content"
  writable :: "str \<Rightarrow> bool"
  stdout :: "report list"

definition print :: "report \<Rightarrow> world \<Rightarrow> world" where
  "print r w = w\<lparr>stdout := stdout w @ [r]\<rparr>"


section \<open>The methods of NoteManager\<close>

definition load_data :: "NoteManager \<Rightarrow> world \<Rightarrow> NoteManager \<times> world" where
  "load_data m w =
     (let w1 = print (Loading_data (data_file m)) w
      in case files w (data_file m) of
           Absent \<Rightarrow> (m, print (File_not_found (data_file m)) w1)
         | Malformed \<Rightarrow> (m, print Invalid_file_format w1)
         | Document (Json_Array ns) \<Rightarrow> (m, print Unexpected_error w1)
         | Document (Json_Object ns cs ks) \<Rightarrow>
             (m\<lparr>notes := (case ns of None \<Rightarrow> [] | Some x \<Rightarrow> x),
                categories := (case cs of None \<Rightarrow> [] | Some x \<Rightarrow> x),
                keyword_weights := (case ks of None \<Rightarrow> Map.empty | Some x \<Rightarrow> x)\<rparr>,
              print Data_loaded w1))"

definition save_data :: "NoteManager \<Rightarrow> world \<Rightarrow> world" where
  "save_data m w =
     (if writable w (data_file m)
      then print Data_saved
             (w\<lparr>files := (files w)(data_file m :=
                   Document (Json_Object (Some (notes m)) (Some (categories m))
                                         (Some (keyword_weights m))))\<rparr>)
      else print Error_saving_data w)"

definition add_category ::
  "NoteManager \<Rightarrow> world \<Rightarrow> str \<Rightarrow> str list \<Rightarrow> NoteManager \<times> world" where
  "add_category m w name keywords =
     (let cat = py_strip name;
          keywords_list = map py_strip (filter (\<lambda>kw. py_strip kw \<noteq> []) keywords)
      in if cat = [] then (m, print Error_category_empty w)
         else if keywords_list = [] then (m, print Error_keywords_empty w)
         else if cat \<in> set (map fst (categories m))
           then (m, print (Error_category_exists cat) w)
         else (let m' = m\<lparr>categories := categories m @ [(cat, keywords_list)]\<rparr>
               in (m', print (Category_added cat keywords_list) (save_data m' w))))"

text \<open>\<open>self.keyword_weights.get(word, d)\<close>\<close>

definition weights_get :: "weights_dict \<Rightarrow> str \<Rightarrow> int \<Rightarrow> int" where
  "weights_get kw word d = (case kw word of None \<Rightarrow> d | Some v \<Rightarrow> v)"

text \<open>\<open>scores[cat] += v\<close> on the dict of scores, kept in the order of its keys.\<close>

definition add_score :: "(str \<times> int) list \<Rightarrow> str \<Rightarrow> int \<Rightarrow> (str \<times> int) list" where
  "add_score scores cat v = map (\<lambda>(k, s). if k = cat then (k, s + v) else (k, s)) scores"

text \<open>
  The two nested loops of \<open>categorize_notes\<close>, from the dict of zero scores: for every
  lowered word and every category whose lowered keywords hold the word, the score of
  the category grows by the weight of the word (1 when the word has none).
\<close>

definition compute_scores :: "NoteManager \<Rightarrow> str \<Rightarrow> (str \<times> int) list" where
  "compute_scores m note_content =
     (let words = map py_lower (py_split note_content)
      in fold (\<lambda>word scores.
                 fold (\<lambda>(cat, keywords) sc.
                         if word \<in> set (map py_lower keywords)
                         then add_score sc cat (weights_get (keyword_weights m) word 1)
                         else sc)
                      (categories m) scores)
              words
              (map (\<lambda>(cat, keywords). (cat, 0)) (categories m)))"

text \<open>
  \<open>max(scores, key=scores.get)\<close>: the first key whose value no later key exceeds;
  \<open>ValueError\<close> on the empty dict. The value is carried with the key, as
  \<open>scores[suitable_category]\<close> reads it afterwards.
\<close>

fun max_by_score :: "(str \<times> int) list \<Rightarrow> exn + (str \<times> int)" where
  "max_by_score [] = Inl ValueError"
| "max_by_score (first # rest) =
     Inr (fold (\<lambda>(k, v) (bk, bv). if v > bv then (k, v) else (bk, bv)) rest first)"

definition categorize_notes :: "NoteManager \<Rightarrow> str \<Rightarrow> exn + str" where
  "categorize_notes m note_content =
     (case max_by_score (compute_scores m note_content) of
        Inl e \<Rightarrow> Inl e
      | Inr (suitable_category, score) \<Rightarrow>
          if score = 0 then Inr (lit ''Others'') else Inr suitable_category)"

text \<open>\<open>self.categories.get(cat, [])\<close>\<close>

definition categories_get :: "categories_dict \<Rightarrow> str \<Rightarrow> str list" where
  "categories_get cs cat = (case map_of cs cat of None \<Rightarrow> [] | Some ks \<Rightarrow> ks)"

definition update_keyword_weights ::
  "NoteManager \<Rightarrow> world \<Rightarrow> str list \<Rightarrow> str \<Rightarrow> NoteManager \<times> world" where
  "update_keyword_weights m w words cat =
     (if cat \<notin> set (map fst (categories m))
      then (m, print (Error_category_missing cat) w)
      else (let m' = m\<lparr>keyword_weights :=
                        fold (\<lambda>word kw.
                                if word \<in> set (categories_get (categories m) cat)
                                then kw(word \<mapsto> weights_get kw word 0 + 1)
                                else kw)
                             words (keyword_weights m)\<rparr>
            in (m', save_data m' w)))"

text \<open>
  \<open>add_note\<close> raises what \<open>categorize_notes\<close> raises, before it has changed anything.
\<close>

definition add_note :: "NoteManager \<Rightarrow> world \<Rightarrow> str \<Rightarrow> exn + (NoteManager \<times> world)" where
  "add_note m w note_content =
     (let c = py_strip note_content
      in if c = [] then Inr (m, print Error_note_empty w)
         else case categorize_notes m c of
                Inl e \<Rightarrow> Inl e
              | Inr cat \<Rightarrow>
                  (let m1 = m\<lparr>notes := notes m @ [\<lparr>content = c, category = cat\<rparr>]\<rparr>;
                       (m2, w2) = update_keyword_weights m1 w (py_split c) cat;
                       w3 = save_data m2 w2
                   in Inr (m2, print (Note_added cat) w3)))"

definition view_notes :: "NoteManager \<Rightarrow> world \<Rightarrow> world" where
  "view_notes m w =
     (if notes m = [] then print No_notes_available w
      else fold (\<lambda>n. print (Note_line (category n) (content n))) (notes m)
                (print Viewing_all_notes w))"

definition search_notes :: "NoteManager \<Rightarrow> world \<Rightarrow> str \<Rightarrow> Note list \<times> world" where
  "search_notes m w keyword =
     (let k = py_strip keyword
      in if k = [] then ([], print Error_keyword_empty w)
         else (let results = filter (\<lambda>n. py_in (py_lower k) (py_lower (content n))) (notes m)
               in (results, if results = [] then print (No_notes_found k) w else w)))"

definition export_notes :: "NoteManager \<Rightarrow> world \<Rightarrow> str \<Rightarrow> world" where
  "export_notes m w filename =
     (let f = py_strip filename
      in if f = [] then print Error_filename_empty w
         else if writable w f
           then print (Notes_exported f)
                  (w\<lparr>files := (files w)(f := Document (Json_Array (notes m)))\<rparr>)
         else print Error_exporting_notes w)"


section \<open>Call sequences\<close>

text \<open>
  The calls of the menu. A call of \<open>add_note\<close> that raises has not changed the
  object (the raise of \<open>categorize_notes\<close> comes before the first assignment), so a
  caller that goes on after it finds the state as it was.
\<close>

datatype call =
    AddCategory str "str list"
  | AddNote str
  | ViewNotes
  | SearchNotes str
  | ExportNotes str

fun step :: "call \<Rightarrow> NoteManager \<times> world \<Rightarrow> NoteManager \<times> world" where
  "step (AddCategory name keywords) (m, w) = add_category m w name keywords"
| "step (AddNote note_content) (m, w) =
     (case add_note m w note_content of Inl e \<Rightarrow> (m, w) | Inr mw \<Rightarrow> mw)"
| "step ViewNotes (m, w) = (m, view_notes m w)"
| "step (SearchNotes keyword) (m, w) = (m, snd (search_notes m w keyword))"
| "step (ExportNotes filename) (m, w) = (m, export_notes m w filename)"

definition run :: "call list \<Rightarrow> NoteManager \<times> world \<Rightarrow> NoteManager \<times> world" where
  "run calls mw = fold step calls mw"


section \<open>Notions of the specification\<close>

text \<open>
  The score of a category as the specification words it: the sum, over the lowered
  tokens that are among the lowered keywords of the category, of the weight of the
  token, 1 for a token without weight.
\<close>

definition category_score :: "weights_dict \<Rightarrow> str list \<Rightarrow> str list \<Rightarrow> int" where
  "category_score kw words keywords =
     sum_list (map (\<lambda>word. if word \<in> set (map py_lower keywords)
                            then weights_get kw word 1 else 0) words)"

text \<open>No whitespace token of the content matches a keyword of a category, case ignored.\<close>

definition no_keyword_match :: "NoteManager \<Rightarrow> str \<Rightarrow> bool" where
  "no_keyword_match m note_content =
     list_all (\<lambda>word. list_all (\<lambda>(cat, keywords). py_lower word \<notin> set (map py_lower keywords))
                                (categories m))
              (py_split note_content)"

text \<open>Every note is filed under a registered category or under \<open>Others\<close>.\<close>

definition notes_categorized :: "NoteManager \<Rightarrow> bool" where
  "notes_categorized m =
     (set (map category (notes m)) \<subseteq> insert (lit ''Others'') (set (map fst (categories m))))"

text \<open>A key with an uppercase character.\<close>

definition has_upper :: "str \<Rightarrow> bool" where
  "has_upper k = list_ex isupper k"

text \<open>The state of the example scenario: one category, no weights, no notes.\<close>

definition work_store :: "str \<Rightarrow> NoteManager" where
  "work_store f =
     \<lparr>data_file = f, notes = [],
      categories = [(lit ''Work'', [lit ''meeting'', lit ''deadline''])],
      keyword_weights = Map.empty\<rparr>"

section \<open>Example states\<close>

text \<open>The environment at a first start: no file, every path writable, nothing printed.\<close>

definition fresh_world :: world where
  "fresh_world = \<lparr>files = (\<lambda>path. Absent), writable = (\<lambda>path. True), stdout = []\<rparr>"

text \<open>A store with three notes and no category.\<close>

definition milk_store :: NoteManager where
  "milk_store =
     \<lparr>data_file = lit ''notes.json'',
      notes = [\<lparr>content = lit ''Buy Milk'', category = lit ''Others''\<rparr>,
               \<lparr>content = lit ''Call Bob'', category = lit ''Others''\<rparr>,
               \<lparr>content = lit ''milkshake recipe'', category = lit ''Others''\<rparr>],
      categories = [],
      keyword_weights = Map.empty\<rparr>"


text \<open>
  Three categories; for the content \<open>Dinner at eight\<close> the second and the third both
  score 1 and the first scores 0.
\<close>

definition tie_store :: NoteManager where
  "tie_store =
     \<lparr>data_file = lit ''notes.json'', notes = [],
      categories = [(lit ''Work'', [lit ''deadline'']),
                    (lit ''Home'', [lit ''Dinner'', lit ''rent'']),
                    (lit ''Team'', [lit ''lunch'', lit ''dinner''])],
      keyword_weights = Map.empty\<rparr>"


text \<open>
  Two categories; the one keyword of the first is the character U+03D2 (code point
  978), which is uppercase and which \<open>lower()\<close> keeps.
\<close>

definition upsilon_store :: NoteManager where
  "upsilon_store =
     \<lparr>data_file = lit ''notes.json'', notes = [],
      categories = [(lit ''Work'', [[978]]),
                    (lit ''Home'', [lit ''rent'', lit ''x''])],
      keyword_weights = Map.empty\<rparr>"

text \<open>The same with the keyword \<open>Meeting\<close>, which \<open>lower()\<close> returns for no string.\<close>

definition meeting_store :: NoteManager where
  "meeting_store =
     \<lparr>data_file = lit ''notes.json'', notes = [],
      categories = [(lit ''Work'', [lit ''Meeting'']),
                    (lit ''Home'', [lit ''rent'', lit ''x''])],
      keyword_weights = Map.empty\<rparr>"


section \<open>Auxiliary facts\<close>

lemma fold_skip: "fold (\<lambda>x s. s) xs s = s"
  by (induction xs) auto

text \<open>The equations that evaluate the string operations on a literal.\<close>

lemmas eval_str = lit_def py_split_def py_strip_def isspace_def py_lower_def lower_char_def
  isupper_def


section \<open>Adding a note before any category exists\<close>

text \<open>
  C1. The claim: every public operation completes without raising, in particular
  \<open>add_note\<close> and \<open>categorize_notes\<close> when no category has been registered. In the
  code \<open>max\<close> is applied to the empty dict of scores then: on the store that
  \<open>__init__\<close> builds, \<open>categorize_notes\<close> raises \<open>ValueError\<close> for the content
  \<open>hello\<close>, and \<open>add_note\<close> lets it escape.
\<close>

theorem add_note_raises_without_categories:
  "categorize_notes (NoteManager_init f) (lit ''hello'') = Inl ValueError \<and>
   add_note (NoteManager_init f) w (lit ''hello'') = Inl ValueError"
  by (simp add: add_note_def categorize_notes_def compute_scores_def NoteManager_init_def
      fold_skip eval_str)


section \<open>The example scenario\<close>

text \<open>
  C2. From the state with the one category \<open>Work\<close> with the keywords \<open>meeting\<close> and
  \<open>deadline\<close> and no weights, adding the note \<open>Schedule a meeting tomorrow\<close> files it
  under \<open>Work\<close> and gives \<open>meeting\<close> the weight 1; adding \<open>Another meeting today\<close>
  next files it under \<open>Work\<close> again and gives \<open>meeting\<close> the weight 2. This holds
  whatever the files are and whether or not the data file can be written.
\<close>

theorem example_scenario:
  "\<exists>m1 w1 m2 w2.
     add_note (work_store f) w (lit ''Schedule a meeting tomorrow'') = Inr (m1, w1) \<and>
     map category (notes m1) = [lit ''Work''] \<and>
     keyword_weights m1 (lit ''meeting'') = Some 1 \<and>
     add_note m1 w1 (lit ''Another meeting today'') = Inr (m2, w2) \<and>
     map category (notes m2) = [lit ''Work'', lit ''Work''] \<and>
     keyword_weights m2 (lit ''meeting'') = Some 2"
  by (simp add: add_note_def categorize_notes_def compute_scores_def work_store_def Let_def
      add_score_def weights_get_def update_keyword_weights_def categories_get_def eval_str)

section \<open>The categories of the stored notes\<close>

subsection \<open>The scores keep the keys of the categories\<close>

lemma keys_add_score: "map fst (add_score sc cat v) = map fst sc"
  by (induction sc) (auto simp: add_score_def)

lemma keys_inner_fold:
  "map fst (fold (\<lambda>(cat, keywords) sc. if P keywords then add_score sc cat v else sc) cs sc0)
   = map fst sc0"
  by (induction cs arbitrary: sc0) (auto simp: keys_add_score)

lemma keys_outer_fold:
  "map fst (fold (\<lambda>word scores.
       fold (\<lambda>(cat, keywords) sc. if P word keywords then add_score sc cat (v word) else sc)
            cs scores) words sc0)
   = map fst sc0"
  by (induction words arbitrary: sc0) (auto simp: keys_inner_fold)

lemma keys_compute_scores: "map fst (compute_scores m c) = map fst (categories m)"
  unfolding compute_scores_def Let_def
  by (simp only: keys_outer_fold) (simp add: comp_def case_prod_unfold)

lemma fold_max_mem:
  "fold (\<lambda>(k, v) (bk, bv). if v > bv then (k, v) else (bk, bv)) rest b \<in> set (b # rest)"
proof (induction rest arbitrary: b)
  case Nil
  show ?case by simp
next
  case (Cons x rest)
  have "fold (\<lambda>(k, v) (bk, bv). if v > bv then (k, v) else (bk, bv)) rest
          ((\<lambda>(k, v) (bk, bv). if v > bv then (k, v) else (bk, bv)) x b)
        \<in> set (((\<lambda>(k, v) (bk, bv). if v > bv then (k, v) else (bk, bv)) x b) # rest)"
    by (rule Cons.IH)
  moreover have "(\<lambda>(k, v) (bk, bv). if v > bv then (k, v) else (bk, bv)) x b \<in> {x, b}"
    by (cases x; cases b) auto
  ultimately show ?case by auto
qed

lemma max_by_score_mem:
  assumes "max_by_score xs = Inr p"
  shows "p \<in> set xs"
proof (cases xs)
  case Nil
  with assms show ?thesis by simp
next
  case (Cons first rest)
  with assms have "p = fold (\<lambda>(k, v) (bk, bv). if v > bv then (k, v) else (bk, bv)) rest first"
    by simp
  with fold_max_mem[of rest first] Cons show ?thesis by simp
qed

lemma max_by_score_Inl: "max_by_score xs = Inl e \<longleftrightarrow> xs = []"
  by (cases xs; cases e) auto

lemma categorize_notes_range:
  assumes "categorize_notes m c = Inr cat"
  shows "cat = lit ''Others'' \<or> cat \<in> set (map fst (categories m))"
proof (cases "max_by_score (compute_scores m c)")
  case (Inl e)
  with assms show ?thesis by (simp add: categorize_notes_def)
next
  case (Inr p)
  then have "p \<in> set (compute_scores m c)" by (rule max_by_score_mem)
  then have "fst p \<in> set (map fst (compute_scores m c))" by force
  then have "fst p \<in> set (map fst (categories m))" by (simp only: keys_compute_scores)
  with assms Inr show ?thesis
    by (cases p) (auto simp: categorize_notes_def split: if_splits)
qed


lemma update_keyword_weights_notes [simp]:
  "notes (fst (update_keyword_weights m w words cat)) = notes m"
  by (simp add: update_keyword_weights_def Let_def)

lemma update_keyword_weights_categories [simp]:
  "categories (fst (update_keyword_weights m w words cat)) = categories m"
  by (simp add: update_keyword_weights_def Let_def)

lemma notes_categorized_init: "notes_categorized (NoteManager_init f)"
  by (simp add: notes_categorized_def NoteManager_init_def)

lemma notes_categorized_add_category:
  "notes_categorized m \<Longrightarrow> notes_categorized (fst (add_category m w name keywords))"
  by (auto simp: notes_categorized_def add_category_def Let_def)

lemma notes_categorized_add_note:
  assumes "notes_categorized m" and "add_note m w c = Inr (m', w')"
  shows "notes_categorized m'"
proof (cases "py_strip c = []")
  case True
  with assms show ?thesis by (simp add: add_note_def)
next
  case False
  with assms(2) obtain cat where cat: "categorize_notes m (py_strip c) = Inr cat"
    by (auto simp: add_note_def Let_def split: sum.splits)
  let ?m1 = "m\<lparr>notes := notes m @ [\<lparr>content = py_strip c, category = cat\<rparr>]\<rparr>"
  from False cat assms(2)
  have m': "m' = fst (update_keyword_weights ?m1 w (py_split (py_strip c)) cat)"
    by (auto simp: add_note_def Let_def split: prod.splits)
  from cat have "cat = lit ''Others'' \<or> cat \<in> set (map fst (categories m))"
    by (rule categorize_notes_range)
  with assms(1) show ?thesis
    by (auto simp: m' notes_categorized_def)
qed

lemma notes_categorized_step:
  "notes_categorized (fst mw) \<Longrightarrow> notes_categorized (fst (step c mw))"
proof (cases mw)
  case (Pair m w)
  assume inv: "notes_categorized (fst mw)"
  show ?thesis
  proof (cases c)
    case (AddCategory nm kws)
    with Pair inv show ?thesis by (simp add: notes_categorized_add_category)
  next
    case (AddNote x)
    show ?thesis
    proof (cases "add_note m w x")
      case (Inl e)
      with Pair inv AddNote show ?thesis by simp
    next
      case (Inr r)
      then have "add_note m w x = Inr (fst r, snd r)" by simp
      moreover from Pair inv have "notes_categorized m" by simp
      ultimately have "notes_categorized (fst r)"
        by (rule notes_categorized_add_note[rotated])
      with Pair AddNote Inr show ?thesis by simp
    qed
  qed (use Pair inv in simp_all)
qed

lemma notes_categorized_fold:
  "notes_categorized (fst mw) \<Longrightarrow> notes_categorized (fst (fold step calls mw))"
  by (induction calls arbitrary: mw) (auto simp: notes_categorized_step)

text \<open>
  C9. From the empty store, after any sequence of calls of \<open>add_category\<close>,
  \<open>add_note\<close>, \<open>search_notes\<close>, \<open>view_notes\<close> and \<open>export_notes\<close>, every stored note
  has a category that is a registered category name or \<open>Others\<close>. A call of
  \<open>add_note\<close> that raises leaves the store as it was.
\<close>

theorem notes_category_invariant:
  "notes_categorized (fst (run calls (NoteManager_init f, w)))"
  unfolding run_def by (rule notes_categorized_fold) (simp add: notes_categorized_init)

section \<open>Updating the keyword weights\<close>

lemma fold_weights:
  "fold (\<lambda>word kw. if word \<in> S then kw(word \<mapsto> weights_get kw word 0 + 1) else kw) words kw0
   = (\<lambda>k. if k \<in> set words \<and> k \<in> S
           then Some (weights_get kw0 k 0 + int (count_list words k))
           else kw0 k)"
proof (induction words arbitrary: kw0)
  case Nil
  show ?case by simp
next
  case (Cons x xs)
  show ?case
    by (simp add: Cons.IH) (auto simp: fun_eq_iff weights_get_def count_notin)
qed

text \<open>
  C5. \<open>update_keyword_weights\<close> reports an error and changes nothing (the store is
  returned as it was and no file is written) when the category is not registered, which
  is the case of \<open>Others\<close> unless a category of that name was added. Otherwise the
  weight of a token grows by 1 for each of its occurrences among the tokens when the
  token is, letter for letter, a keyword of the category, from 0 when it had no weight;
  every other weight, the notes and the categories stay as they are.
\<close>

theorem update_keyword_weights_spec:
  "update_keyword_weights m w words cat =
     (if cat \<notin> set (map fst (categories m))
      then (m, print (Error_category_missing cat) w)
      else (let m' = m\<lparr>keyword_weights :=
                        (\<lambda>k. if k \<in> set words \<and> k \<in> set (categories_get (categories m) cat)
                              then Some (weights_get (keyword_weights m) k 0
                                         + int (count_list words k))
                              else keyword_weights m k)\<rparr>
            in (m', save_data m' w)))"
  by (simp add: update_keyword_weights_def fold_weights)

theorem update_keyword_weights_spec_witness:
  "update_keyword_weights (work_store (lit ''notes.json'')) fresh_world
     [lit ''meeting'', lit ''Deadline'', lit ''meeting''] (lit ''Others'')
   = (work_store (lit ''notes.json''),
      print (Error_category_missing (lit ''Others'')) fresh_world) \<and>
   keyword_weights (fst (update_keyword_weights (work_store (lit ''notes.json'')) fresh_world
     [lit ''meeting'', lit ''Deadline'', lit ''meeting''] (lit ''Work''))) (lit ''meeting'') = Some 2 \<and>
   keyword_weights (fst (update_keyword_weights (work_store (lit ''notes.json'')) fresh_world
     [lit ''meeting'', lit ''Deadline'', lit ''meeting''] (lit ''Work''))) (lit ''Deadline'') = None \<and>
   keyword_weights (fst (update_keyword_weights (work_store (lit ''notes.json'')) fresh_world
     [lit ''meeting'', lit ''Deadline'', lit ''meeting''] (lit ''Work''))) (lit ''deadline'') = None"
  using update_keyword_weights_spec [of "work_store (lit ''notes.json'')" fresh_world
          "[lit ''meeting'', lit ''Deadline'', lit ''meeting'']" "lit ''Others''"]
        update_keyword_weights_spec [of "work_store (lit ''notes.json'')" fresh_world
          "[lit ''meeting'', lit ''Deadline'', lit ''meeting'']" "lit ''Work''"]
  by (simp add: work_store_def categories_get_def weights_get_def Let_def lit_def)


section \<open>Searching\<close>

lemma take_length_eq_iff: "take (length sub) s = sub \<longleftrightarrow> (\<exists>ss. s = sub @ ss)"
proof
  assume "take (length sub) s = sub"
  then have "s = sub @ drop (length sub) s" by (metis append_take_drop_id)
  then show "\<exists>ss. s = sub @ ss" ..
next
  assume "\<exists>ss. s = sub @ ss"
  then show "take (length sub) s = sub" by auto
qed

lemma py_in_iff: "py_in sub s \<longleftrightarrow> (\<exists>ps ss. s = ps @ sub @ ss)"
proof (induction s)
  case Nil
  show ?case by auto
next
  case (Cons c cs)
  have "(\<exists>ps ss. c # cs = ps @ sub @ ss) \<longleftrightarrow>
        (\<exists>ss. c # cs = sub @ ss) \<or> (\<exists>ps ss. cs = ps @ sub @ ss)"
  proof
    assume "\<exists>ps ss. c # cs = ps @ sub @ ss"
    then obtain ps ss where eq: "c # cs = ps @ sub @ ss" by blast
    show "(\<exists>ss. c # cs = sub @ ss) \<or> (\<exists>ps ss. cs = ps @ sub @ ss)"
    proof (cases ps)
      case Nil
      with eq show ?thesis by auto
    next
      case (Cons p ps')
      with eq have "cs = ps' @ sub @ ss" by simp
      then show ?thesis by blast
    qed
  next
    assume "(\<exists>ss. c # cs = sub @ ss) \<or> (\<exists>ps ss. cs = ps @ sub @ ss)"
    then show "\<exists>ps ss. c # cs = ps @ sub @ ss"
    proof
      assume "\<exists>ss. c # cs = sub @ ss"
      then obtain ss where "c # cs = [] @ sub @ ss" by auto
      then show ?thesis by blast
    next
      assume "\<exists>ps ss. cs = ps @ sub @ ss"
      then obtain ps ss where "c # cs = (c # ps) @ sub @ ss" by auto
      then show ?thesis by blast
    qed
  qed
  with Cons.IH show ?case
    by (simp only: py_in.simps take_length_eq_iff)
qed

text \<open>
  C8. \<open>search_notes\<close> with a keyword that is empty after trimming returns the empty
  list and prints the error; with any other keyword it returns the notes whose lowered
  content has the lowered trimmed keyword as a contiguous substring, in stored order.
\<close>

theorem search_notes_spec:
  "(py_strip keyword = [] \<longrightarrow>
      search_notes m w keyword = ([], print Error_keyword_empty w)) \<and>
   (py_strip keyword \<noteq> [] \<longrightarrow>
      fst (search_notes m w keyword) =
        filter (\<lambda>n. \<exists>ps ss. py_lower (content n) = ps @ py_lower (py_strip keyword) @ ss)
               (notes m))"
  by (simp add: search_notes_def Let_def py_in_iff)

theorem search_notes_spec_witness:
  "py_strip (lit ''  '') = [] \<and>
   search_notes milk_store fresh_world (lit ''  '') = ([], print Error_keyword_empty fresh_world) \<and>
   py_strip (lit '' milk'') \<noteq> [] \<and>
   fst (search_notes milk_store fresh_world (lit '' milk'')) =
     [\<lparr>content = lit ''Buy Milk'', category = lit ''Others''\<rparr>,
      \<lparr>content = lit ''milkshake recipe'', category = lit ''Others''\<rparr>]"
  using search_notes_spec [of "lit ''  ''" milk_store fresh_world]
        search_notes_spec [of "lit '' milk''" milk_store fresh_world]
  by (simp add: search_notes_def milk_store_def Let_def eval_str)


section \<open>Saving and loading\<close>

text \<open>
  C7. When the data file can be written, \<open>save_data\<close> followed by \<open>load_data\<close>, on the
  same object or on another one for the same file, gives the notes, the categories with
  their keyword lists and the keyword weights that were saved.
\<close>

theorem save_load_round_trip:
  assumes "writable w (data_file m)" and "data_file m0 = data_file m"
  shows "notes (fst (load_data m0 (save_data m w))) = notes m \<and>
         categories (fst (load_data m0 (save_data m w))) = categories m \<and>
         keyword_weights (fst (load_data m0 (save_data m w))) = keyword_weights m \<and>
         fst (load_data m (save_data m w)) = m"
  using assms by (simp add: load_data_def save_data_def print_def Let_def)

theorem save_load_round_trip_witness:
  "writable fresh_world (data_file (work_store (lit ''notes.json''))) \<and>
   data_file (NoteManager_init (lit ''notes.json'')) = data_file (work_store (lit ''notes.json'')) \<and>
   categories (fst (load_data (NoteManager_init (lit ''notes.json''))
                      (save_data (work_store (lit ''notes.json'')) fresh_world)))
     = [(lit ''Work'', [lit ''meeting'', lit ''deadline''])] \<and>
   fst (load_data (work_store (lit ''notes.json''))
          (save_data (work_store (lit ''notes.json'')) fresh_world)) = work_store (lit ''notes.json'')"
proof -
  have h1: "writable fresh_world (data_file (work_store (lit ''notes.json'')))"
    by (simp add: fresh_world_def)
  have h2: "data_file (NoteManager_init (lit ''notes.json'')) = data_file (work_store (lit ''notes.json''))"
    by (simp add: NoteManager_init_def work_store_def)
  from save_load_round_trip [OF h1 h2] h1 h2 show ?thesis
    by (simp add: work_store_def)
qed


section \<open>Adding a category\<close>

lemma map_of_snoc_new:
  "k \<notin> set (map fst ps) \<Longrightarrow> map_of (ps @ [(k, v)]) k = Some v"
  by (induction ps) auto

lemma strip_filter_commute:
  "map py_strip (filter (\<lambda>kw. py_strip kw \<noteq> []) kws) = filter (\<lambda>k. k \<noteq> []) (map py_strip kws)"
  by (induction kws) auto

text \<open>
  C6. When the trimmed name is not empty, some keyword is not empty after trimming, the
  trimmed name is not registered yet and the data file can be written, \<open>add_category\<close>
  stores under the trimmed name the trimmed keywords, in their order, without the empty
  ones, and a new object that loads the data file finds the same list under the name.
\<close>

theorem add_category_stores_trimmed_keywords:
  assumes "py_strip name \<noteq> []"
    and "\<exists>kw \<in> set keywords. py_strip kw \<noteq> []"
    and "py_strip name \<notin> set (map fst (categories m))"
    and "writable w (data_file m)"
  shows "map_of (categories (fst (add_category m w name keywords))) (py_strip name)
           = Some (filter (\<lambda>k. k \<noteq> []) (map py_strip keywords)) \<and>
         map_of (categories (fst (load_data (NoteManager_init (data_file m))
                                    (snd (add_category m w name keywords)))))
                (py_strip name)
           = Some (filter (\<lambda>k. k \<noteq> []) (map py_strip keywords))"
proof -
  from assms(2) have ne: "filter (\<lambda>k. k \<noteq> []) (map py_strip keywords) \<noteq> []"
    by (auto simp: filter_empty_conv)
  let ?m' = "m\<lparr>categories := categories m
               @ [(py_strip name, filter (\<lambda>k. k \<noteq> []) (map py_strip keywords))]\<rparr>"
  from assms(1,3) ne
  have ac: "add_category m w name keywords =
              (?m', print (Category_added (py_strip name)
                             (filter (\<lambda>k. k \<noteq> []) (map py_strip keywords)))
                      (save_data ?m' w))"
    by (simp add: add_category_def Let_def strip_filter_commute)
  have look: "map_of (categories ?m') (py_strip name)
                = Some (filter (\<lambda>k. k \<noteq> []) (map py_strip keywords))"
    using map_of_snoc_new [OF assms(3)] by (simp del: map_of_append)
  have "categories (fst (load_data (NoteManager_init (data_file m))
                           (snd (add_category m w name keywords)))) = categories ?m'"
    using assms(4)
    by (simp add: ac load_data_def save_data_def print_def Let_def NoteManager_init_def)
  with look ac show ?thesis by simp
qed

theorem add_category_stores_trimmed_keywords_witness:
  "py_strip (lit '' Home '') \<noteq> [] \<and>
   (\<exists>kw \<in> set [lit '' rent'', lit ''  '', lit ''Bills '']. py_strip kw \<noteq> []) \<and>
   py_strip (lit '' Home '') \<notin> set (map fst (categories (work_store (lit ''notes.json'')))) \<and>
   writable fresh_world (data_file (work_store (lit ''notes.json''))) \<and>
   map_of (categories (fst (add_category (work_store (lit ''notes.json'')) fresh_world
                              (lit '' Home '') [lit '' rent'', lit ''  '', lit ''Bills ''])))
          (lit ''Home'') = Some [lit ''rent'', lit ''Bills''] \<and>
   map_of (categories (fst (load_data (NoteManager_init (lit ''notes.json''))
                              (snd (add_category (work_store (lit ''notes.json'')) fresh_world
                                      (lit '' Home '') [lit '' rent'', lit ''  '', lit ''Bills ''])))))
          (lit ''Home'') = Some [lit ''rent'', lit ''Bills'']"
proof -
  have h1: "py_strip (lit '' Home '') \<noteq> []" by (simp add: eval_str)
  have h2: "\<exists>kw \<in> set [lit '' rent'', lit ''  '', lit ''Bills '']. py_strip kw \<noteq> []"
    by (simp add: eval_str)
  have h3: "py_strip (lit '' Home '') \<notin> set (map fst (categories (work_store (lit ''notes.json''))))"
    by (simp add: eval_str work_store_def)
  have h4: "writable fresh_world (data_file (work_store (lit ''notes.json'')))"
    by (simp add: fresh_world_def)
  have e1: "py_strip (lit '' Home '') = lit ''Home''" by (simp add: eval_str)
  have e2: "filter (\<lambda>k. k \<noteq> []) (map py_strip [lit '' rent'', lit ''  '', lit ''Bills ''])
            = [lit ''rent'', lit ''Bills'']" by (simp add: eval_str)
  have e3: "data_file (work_store (lit ''notes.json'')) = lit ''notes.json''"
    by (simp add: work_store_def)
  from add_category_stores_trimmed_keywords [OF h1 h2 h3 h4] h1 h2 h3 h4
  show ?thesis by (simp only: e1 e2 e3) simp
qed

section \<open>The scores and the choice among equal scores\<close>

text \<open>
  On a dict of categories (no key twice) the two loops of \<open>categorize_notes\<close> compute,
  for each category, the score that the specification describes.
\<close>

lemma inner_fold_scores:
  assumes "distinct (map fst cs)"
  shows "fold (\<lambda>(cat, keywords) sc. if P keywords then add_score sc cat v else sc) cs sc
         = map (\<lambda>(k, s). (k, s + (case map_of cs k of
                                      None \<Rightarrow> 0
                                    | Some keywords \<Rightarrow> if P keywords then v else 0))) sc"
  using assms
proof (induction cs arbitrary: sc)
  case Nil
  show ?case by (simp add: case_prod_unfold)
next
  case (Cons a cs)
  obtain cat kws where a: "a = (cat, kws)" by (cases a)
  from Cons.prems a have none: "map_of cs cat = None" and dist: "distinct (map fst cs)"
    by (auto simp: map_of_eq_None_iff)
  let ?f = "\<lambda>(cat, keywords) sc. if P keywords then add_score sc cat v else sc"
  let ?sc = "if P kws then add_score sc cat v else sc"
  have "fold ?f (a # cs) sc = fold ?f cs ?sc"
    by (simp add: a)
  also have "\<dots> = map (\<lambda>(k, s). (k, s + (case map_of cs k of
                                      None \<Rightarrow> 0
                                    | Some keywords \<Rightarrow> if P keywords then v else 0))) ?sc"
    by (rule Cons.IH [OF dist])
  also have "\<dots> = map (\<lambda>(k, s). (k, s + (case map_of (a # cs) k of
                                      None \<Rightarrow> 0
                                    | Some keywords \<Rightarrow> if P keywords then v else 0))) sc"
    by (auto simp: a add_score_def none case_prod_unfold)
  finally show ?case .
qed

lemma outer_fold_scores:
  assumes "distinct (map fst cs)"
  shows "fold (\<lambda>word scores.
                 fold (\<lambda>(cat, keywords) sc.
                         if word \<in> set (map py_lower keywords)
                         then add_score sc cat (weights_get kw word 1) else sc)
                      cs scores) words sc
         = map (\<lambda>(k, s). (k, s + (case map_of cs k of
                                      None \<Rightarrow> 0
                                    | Some keywords \<Rightarrow> category_score kw words keywords))) sc"
proof (induction words arbitrary: sc)
  case Nil
  have "map (\<lambda>(k, s). (k, s + (case map_of cs k of
                                      None \<Rightarrow> 0
                                    | Some keywords \<Rightarrow> category_score kw [] keywords))) sc = sc"
    by (rule map_idI) (auto simp: category_score_def split: option.split)
  then show ?case by simp
next
  case (Cons word words)
  have step: "fold (\<lambda>(cat, keywords) sc.
                  if word \<in> set (map py_lower keywords)
                  then add_score sc cat (weights_get kw word 1) else sc) cs sc
        = map (\<lambda>(k, s). (k, s + (case map_of cs k of
                                      None \<Rightarrow> 0
                                    | Some keywords \<Rightarrow>
                                        if word \<in> set (map py_lower keywords)
                                        then weights_get kw word 1 else 0))) sc"
    by (rule inner_fold_scores [OF assms])
  show ?case
    by (simp only: fold_simps step Cons.IH)
       (auto simp: category_score_def case_prod_unfold split: option.split)
qed

lemma compute_scores_eq:
  assumes "distinct (map fst (categories m))"
  shows "compute_scores m c
         = map (\<lambda>(cat, keywords).
                  (cat, category_score (keyword_weights m) (map py_lower (py_split c)) keywords))
               (categories m)"
proof -
  have "compute_scores m c
        = map (\<lambda>(k, s). (k, s + (case map_of (categories m) k of
                  None \<Rightarrow> 0
                | Some keywords \<Rightarrow>
                    category_score (keyword_weights m) (map py_lower (py_split c)) keywords)))
              (map (\<lambda>(cat, keywords). (cat, 0)) (categories m))"
    unfolding compute_scores_def Let_def by (rule outer_fold_scores [OF assms])
  also have "\<dots> = map (\<lambda>(cat, keywords).
                  (cat, category_score (keyword_weights m) (map py_lower (py_split c)) keywords))
               (categories m)"
    using assms by (auto simp: case_prod_unfold)
  finally show ?thesis .
qed


lemma fold_max_keep:
  "\<forall>q \<in> set rest. snd q \<le> snd (b :: str \<times> int) \<Longrightarrow>
   fold (\<lambda>(k, v) (bk, bv). if v > bv then (k, v) else (bk, bv)) rest b = b"
  by (induction rest) (auto simp: case_prod_unfold)

lemma fold_max_first:
  assumes "\<forall>p \<in> set pre. snd p < snd (x :: str \<times> int)" and "snd b < snd x"
    and "\<forall>q \<in> set post. snd q \<le> snd x"
  shows "fold (\<lambda>(k, v) (bk, bv). if v > bv then (k, v) else (bk, bv)) (pre @ x # post) b = x"
  using assms(1,2)
proof (induction pre arbitrary: b)
  case Nil
  with fold_max_keep [OF assms(3)] show ?case by (simp add: case_prod_unfold)
next
  case (Cons p pre)
  let ?b = "(\<lambda>(k, v) (bk, bv). if v > bv then (k, v) else (bk, bv)) p b"
  from Cons.prems have "snd ?b < snd x" by (auto simp: case_prod_unfold)
  moreover from Cons.prems have "\<forall>p \<in> set pre. snd p < snd x" by simp
  ultimately have "fold (\<lambda>(k, v) (bk, bv). if v > bv then (k, v) else (bk, bv))
                     (pre @ x # post) ?b = x"
    by (rule Cons.IH [rotated])
  then show ?case by simp
qed

lemma max_by_score_first:
  assumes "\<forall>p \<in> set pre. snd p < snd x" and "\<forall>q \<in> set post. snd q \<le> snd x"
  shows "max_by_score (pre @ x # post) = Inr x"
proof (cases pre)
  case Nil
  with fold_max_keep [OF assms(2)] show ?thesis by simp
next
  case (Cons p pre')
  with assms(1) have "\<forall>p \<in> set pre'. snd p < snd x" and "snd p < snd x" by auto
  from fold_max_first [OF this assms(2)] Cons show ?thesis by simp
qed

text \<open>
  C3. When the categories are \<open>pre\<close>, then a category with a positive score, then
  \<open>post\<close>, and every category of \<open>pre\<close> scores less and every category of \<open>post\<close>
  scores at most as much, \<open>categorize_notes\<close> returns that category: among the categories
  with the maximal score, the first in insertion order.
\<close>

theorem categorize_notes_first_maximum:
  assumes "distinct (map fst (categories m))"
    and "categories m = pre @ (cat, keywords) # post"
    and "list_all (\<lambda>(c', k'). category_score (keyword_weights m) (map py_lower (py_split c)) k'
                   < category_score (keyword_weights m) (map py_lower (py_split c)) keywords) pre"
    and "list_all (\<lambda>(c', k'). category_score (keyword_weights m) (map py_lower (py_split c)) k'
                   \<le> category_score (keyword_weights m) (map py_lower (py_split c)) keywords) post"
    and "0 < category_score (keyword_weights m) (map py_lower (py_split c)) keywords"
  shows "categorize_notes m c = Inr cat"
proof -
  let ?g = "\<lambda>(cat, keywords).
              (cat, category_score (keyword_weights m) (map py_lower (py_split c)) keywords)"
  have "compute_scores m c = map ?g pre @ ?g (cat, keywords) # map ?g post"
    by (simp add: compute_scores_eq [OF assms(1)] assms(2))
  moreover have "\<forall>p \<in> set (map ?g pre). snd p < snd (?g (cat, keywords))"
    using assms(3) by (auto simp: list_all_iff)
  moreover have "\<forall>q \<in> set (map ?g post). snd q \<le> snd (?g (cat, keywords))"
    using assms(4) by (auto simp: list_all_iff)
  ultimately have "max_by_score (compute_scores m c) = Inr (?g (cat, keywords))"
    by (simp only: max_by_score_first)
  with assms(5) show ?thesis by (simp add: categorize_notes_def)
qed

theorem categorize_notes_first_maximum_witness:
  "distinct (map fst (categories tie_store)) \<and>
   categories tie_store
     = [(lit ''Work'', [lit ''deadline''])] @ (lit ''Home'', [lit ''Dinner'', lit ''rent''])
         # [(lit ''Team'', [lit ''lunch'', lit ''dinner''])] \<and>
   category_score (keyword_weights tie_store) (map py_lower (py_split (lit ''Dinner at eight'')))
     [lit ''deadline''] = 0 \<and>
   category_score (keyword_weights tie_store) (map py_lower (py_split (lit ''Dinner at eight'')))
     [lit ''Dinner'', lit ''rent''] = 1 \<and>
   category_score (keyword_weights tie_store) (map py_lower (py_split (lit ''Dinner at eight'')))
     [lit ''lunch'', lit ''dinner''] = 1 \<and>
   categorize_notes tie_store (lit ''Dinner at eight'') = Inr (lit ''Home'')"
proof -
  have sp: "map py_lower (py_split (lit ''Dinner at eight'')) = [lit ''dinner'', lit ''at'', lit ''eight'']"
    by (simp add: eval_str)
  have s0: "category_score (keyword_weights tie_store) [lit ''dinner'', lit ''at'', lit ''eight'']
              [lit ''deadline''] = 0"
    by (simp add: category_score_def tie_store_def weights_get_def eval_str)
  have s1: "category_score (keyword_weights tie_store) [lit ''dinner'', lit ''at'', lit ''eight'']
              [lit ''Dinner'', lit ''rent''] = 1"
    by (simp add: category_score_def tie_store_def weights_get_def eval_str)
  have s2: "category_score (keyword_weights tie_store) [lit ''dinner'', lit ''at'', lit ''eight'']
              [lit ''lunch'', lit ''dinner''] = 1"
    by (simp add: category_score_def tie_store_def weights_get_def eval_str)
  have h1: "distinct (map fst (categories tie_store))"
    by (simp add: tie_store_def lit_def)
  have h2: "categories tie_store
     = [(lit ''Work'', [lit ''deadline''])] @ (lit ''Home'', [lit ''Dinner'', lit ''rent''])
         # [(lit ''Team'', [lit ''lunch'', lit ''dinner''])]"
    by (simp add: tie_store_def)
  have h3: "list_all (\<lambda>(c', k').
              category_score (keyword_weights tie_store)
                (map py_lower (py_split (lit ''Dinner at eight''))) k'
              < category_score (keyword_weights tie_store)
                  (map py_lower (py_split (lit ''Dinner at eight''))) [lit ''Dinner'', lit ''rent''])
            [(lit ''Work'', [lit ''deadline''])]"
    by (simp add: sp s0 s1)
  have h4: "list_all (\<lambda>(c', k').
              category_score (keyword_weights tie_store)
                (map py_lower (py_split (lit ''Dinner at eight''))) k'
              \<le> category_score (keyword_weights tie_store)
                  (map py_lower (py_split (lit ''Dinner at eight''))) [lit ''Dinner'', lit ''rent''])
            [(lit ''Team'', [lit ''lunch'', lit ''dinner''])]"
    by (simp add: sp s1 s2)
  have h5: "0 < category_score (keyword_weights tie_store)
                  (map py_lower (py_split (lit ''Dinner at eight''))) [lit ''Dinner'', lit ''rent'']"
    by (simp add: sp s1)
  from categorize_notes_first_maximum [OF h1 h2 h3 h4 h5] h1 h2 s0 s1 s2
  show ?thesis by (simp add: sp)
qed

section \<open>Which weights a categorization reads\<close>

text \<open>
  \<open>categorize_notes\<close> looks weights up under lowered tokens only: under keys that
  \<open>lower()\<close> returns.
\<close>

lemma compute_scores_agree:
  assumes cats: "categories m2 = categories m1"
    and agree: "\<forall>k \<in> range py_lower. keyword_weights m2 k = keyword_weights m1 k"
  shows "compute_scores m2 c = compute_scores m1 c"
proof -
  have same: "weights_get (keyword_weights m2) (py_lower t) 1
              = weights_get (keyword_weights m1) (py_lower t) 1" for t
    using agree by (simp add: weights_get_def)
  have "fold (\<lambda>word scores.
                 fold (\<lambda>(cat, keywords) sc.
                         if word \<in> set (map py_lower keywords)
                         then add_score sc cat (weights_get (keyword_weights m2) word 1)
                         else sc)
                      (categories m1) scores)
              (map py_lower (py_split c))
              (map (\<lambda>(cat, keywords). (cat, 0)) (categories m1))
        = fold (\<lambda>word scores.
                 fold (\<lambda>(cat, keywords) sc.
                         if word \<in> set (map py_lower keywords)
                         then add_score sc cat (weights_get (keyword_weights m1) word 1)
                         else sc)
                      (categories m1) scores)
              (map py_lower (py_split c))
              (map (\<lambda>(cat, keywords). (cat, 0)) (categories m1))"
  proof (rule fold_cong [OF refl refl])
    fix word
    assume "word \<in> set (map py_lower (py_split c))"
    then obtain t where "word = py_lower t" by auto
    then show "(\<lambda>scores.
                 fold (\<lambda>(cat, keywords) sc.
                         if word \<in> set (map py_lower keywords)
                         then add_score sc cat (weights_get (keyword_weights m2) word 1)
                         else sc)
                      (categories m1) scores)
             = (\<lambda>scores.
                 fold (\<lambda>(cat, keywords) sc.
                         if word \<in> set (map py_lower keywords)
                         then add_score sc cat (weights_get (keyword_weights m1) word 1)
                         else sc)
                      (categories m1) scores)"
      by (simp only: same)
  qed
  then show ?thesis
    by (simp only: compute_scores_def Let_def cats)
qed

lemma categorize_notes_agree:
  assumes "categories m2 = categories m1"
    and "\<forall>k \<in> range py_lower. keyword_weights m2 k = keyword_weights m1 k"
  shows "categorize_notes m2 c = categorize_notes m1 c"
  by (simp add: categorize_notes_def compute_scores_agree [OF assms])

lemma count_list_filter:
  "P k \<Longrightarrow> count_list (filter P xs) k = count_list xs k"
  by (induction xs) auto

lemma update_keyword_weights_weights:
  "keyword_weights (fst (update_keyword_weights m w words cat)) =
     (if cat \<notin> set (map fst (categories m)) then keyword_weights m
      else (\<lambda>k. if k \<in> set words \<and> k \<in> set (categories_get (categories m) cat)
                then Some (weights_get (keyword_weights m) k 0 + int (count_list words k))
                else keyword_weights m k))"
  by (simp add: update_keyword_weights_def fold_weights Let_def)

text \<open>No string is lowered to \<open>Meeting\<close>: \<open>lower()\<close> returns no \<open>M\<close>.\<close>

lemma Meeting_not_lowered: "lit ''Meeting'' \<notin> range py_lower"
proof
  assume "lit ''Meeting'' \<in> range py_lower"
  then obtain t where t: "py_lower t = lit ''Meeting''" by auto
  then obtain c where "lower_char c = 77"
    by (cases t) (auto simp: py_lower_def lit_def)
  then show False
    by (auto simp: lower_char_def split: if_splits)
qed

text \<open>
  C10, as claimed: two states that differ only in weights under keys with an uppercase
  character give the same result of \<open>categorize_notes\<close>. The character U+03D2 (code
  point 978) is uppercase and \<open>lower()\<close> keeps it, so the token made of it is looked up
  under itself: with the weight 5 under that key the content is filed under \<open>Work\<close>,
  without it under \<open>Home\<close>.
\<close>

theorem uppercase_key_changes_category:
  "categories (upsilon_store\<lparr>keyword_weights := [[978] \<mapsto> 5]\<rparr>) = categories upsilon_store \<and>
   keyword_weights (upsilon_store\<lparr>keyword_weights := [[978] \<mapsto> 5]\<rparr>)
     = (keyword_weights upsilon_store)([978] \<mapsto> 5) \<and>
   has_upper [978] \<and>
   categorize_notes upsilon_store ([978] @ lit '' rent rent'') = Inr (lit ''Home'') \<and>
   categorize_notes (upsilon_store\<lparr>keyword_weights := [[978] \<mapsto> 5]\<rparr>)
     ([978] @ lit '' rent rent'') = Inr (lit ''Work'')"
  by (simp add: categorize_notes_def compute_scores_def upsilon_store_def Let_def
      add_score_def weights_get_def has_upper_def eval_str)

text \<open>
  C10, amended: two stores with the same categories whose keyword weights agree on
  every key that \<open>lower()\<close> returns for some string (so that they differ only under
  keys that are no lowered string) give the same result of \<open>categorize_notes\<close>, for
  every content: the same category or the same exception. So the increments that
  \<open>update_keyword_weights\<close> makes for tokens that are no lowered string never change a
  categorization: leaving those tokens out of the update gives the same result of
  \<open>categorize_notes\<close> afterwards.
\<close>

theorem categorize_ignores_unlowered_keys:
  "(categories m2 = categories m1 \<and>
    (\<forall>k \<in> range py_lower. keyword_weights m2 k = keyword_weights m1 k)
    \<longrightarrow> categorize_notes m2 c = categorize_notes m1 c) \<and>
   categorize_notes (fst (update_keyword_weights m w words cat)) c
     = categorize_notes
         (fst (update_keyword_weights m w (filter (\<lambda>t. t \<in> range py_lower) words) cat)) c"
proof
  show "categories m2 = categories m1 \<and>
    (\<forall>k \<in> range py_lower. keyword_weights m2 k = keyword_weights m1 k)
    \<longrightarrow> categorize_notes m2 c = categorize_notes m1 c"
    by (auto intro: categorize_notes_agree)
next
  let ?a = "fst (update_keyword_weights m w words cat)"
  let ?b = "fst (update_keyword_weights m w (filter (\<lambda>t. t \<in> range py_lower) words) cat)"
  have "categories ?a = categories ?b" by simp
  moreover have "\<forall>k \<in> range py_lower. keyword_weights ?a k = keyword_weights ?b k"
    by (auto simp: update_keyword_weights_weights count_list_filter)
  ultimately show "categorize_notes ?a c = categorize_notes ?b c"
    by (rule categorize_notes_agree)
qed

theorem categorize_ignores_unlowered_keys_witness:
  "categories (meeting_store\<lparr>keyword_weights := [lit ''Meeting'' \<mapsto> 5]\<rparr>)
     = categories meeting_store \<and>
   keyword_weights (meeting_store\<lparr>keyword_weights := [lit ''Meeting'' \<mapsto> 5]\<rparr>)
     = (keyword_weights meeting_store)(lit ''Meeting'' \<mapsto> 5) \<and>
   lit ''Meeting'' \<notin> range py_lower \<and>
   categorize_notes (meeting_store\<lparr>keyword_weights := [lit ''Meeting'' \<mapsto> 5]\<rparr>)
     (lit ''Meeting rent rent'') = categorize_notes meeting_store (lit ''Meeting rent rent'') \<and>
   categorize_notes meeting_store (lit ''Meeting rent rent'') = Inr (lit ''Home'')"
proof -
  let ?m2 = "meeting_store\<lparr>keyword_weights := [lit ''Meeting'' \<mapsto> 5]\<rparr>"
  have h1: "categories ?m2 = categories meeting_store" by simp
  have h2: "\<forall>k \<in> range py_lower. keyword_weights ?m2 k = keyword_weights meeting_store k"
  proof
    fix k :: str
    assume "k \<in> range py_lower"
    with Meeting_not_lowered have "k \<noteq> lit ''Meeting''" by blast
    then show "keyword_weights ?m2 k = keyword_weights meeting_store k"
      by (simp add: meeting_store_def)
  qed
  have e: "categorize_notes meeting_store (lit ''Meeting rent rent'') = Inr (lit ''Home'')"
    by (simp add: categorize_notes_def compute_scores_def meeting_store_def Let_def
        add_score_def weights_get_def eval_str)
  have w: "keyword_weights ?m2 = (keyword_weights meeting_store)(lit ''Meeting'' \<mapsto> 5)"
    by (simp add: meeting_store_def)
  from categorize_ignores_unlowered_keys [of ?m2 meeting_store "lit ''Meeting rent rent''"] h1 h2
  have "categorize_notes ?m2 (lit ''Meeting rent rent'')
        = categorize_notes meeting_store (lit ''Meeting rent rent'')"
    by blast
  with h1 w Meeting_not_lowered e show ?thesis by simp
qed


section \<open>Notes that match no keyword\<close>

subsection \<open>Splitting a stripped str\<close>

lemma split_acc_spaces:
  "\<forall>c \<in> set t. isspace c \<Longrightarrow> split_acc cur t = (if cur = [] then [] else [cur])"
  by (induction t arbitrary: cur) auto

lemma split_acc_trailing:
  "\<forall>c \<in> set t. isspace c \<Longrightarrow> split_acc cur (a @ t) = split_acc cur a"
  by (induction a arbitrary: cur) (auto simp: split_acc_spaces)

lemma split_acc_leading: "split_acc [] (dropWhile isspace s) = split_acc [] s"
  by (induction s) auto

lemma py_split_py_strip: "py_split (py_strip s) = py_split s"
proof -
  let ?s = "dropWhile isspace s"
  have "?s = rev (dropWhile isspace (rev ?s)) @ rev (takeWhile isspace (rev ?s))"
    by (metis rev_append rev_rev_ident takeWhile_dropWhile_id)
  then have "?s = py_strip s @ rev (takeWhile isspace (rev ?s))"
    by (simp only: py_strip_def)
  moreover have "\<forall>c \<in> set (rev (takeWhile isspace (rev ?s))). isspace c"
    by (auto dest: set_takeWhileD)
  ultimately have "split_acc [] ?s = split_acc [] (py_strip s)"
    by (metis split_acc_trailing)
  then show ?thesis by (simp add: py_split_def split_acc_leading)
qed

subsection \<open>With at least one category\<close>

text \<open>
  Once a category is registered, a content without a matching token is filed under
  \<open>Others\<close>, and adding it as a note leaves the keyword weights as they are.
\<close>

lemma compute_scores_no_match:
  assumes "no_keyword_match m c"
  shows "compute_scores m c = map (\<lambda>(cat, keywords). (cat, 0)) (categories m)"
proof -
  have inner: "fold (\<lambda>(cat, keywords) sc.
                       if word \<in> set (map py_lower keywords)
                       then add_score sc cat (weights_get (keyword_weights m) word 1)
                       else sc) (categories m) = id"
    if "word \<in> set (map py_lower (py_split c))" for word
  proof (rule fold_id)
    fix x
    assume x: "x \<in> set (categories m)"
    obtain cat kws where xe: "x = (cat, kws)" by (cases x)
    from that obtain t where t: "t \<in> set (py_split c)" "word = py_lower t" by auto
    from assms t(1)
    have "list_all (\<lambda>(cat, keywords). py_lower t \<notin> set (map py_lower keywords))
            (categories m)"
      by (simp add: no_keyword_match_def list_all_iff)
    with x xe t(2) have "word \<notin> set (map py_lower kws)"
      by (simp add: list_all_iff) blast
    then show "(case x of (cat, keywords) \<Rightarrow> \<lambda>sc.
                       if word \<in> set (map py_lower keywords)
                       then add_score sc cat (weights_get (keyword_weights m) word 1)
                       else sc) = id"
      by (auto simp: xe)
  qed
  have "fold (\<lambda>word. fold (\<lambda>(cat, keywords) sc.
                       if word \<in> set (map py_lower keywords)
                       then add_score sc cat (weights_get (keyword_weights m) word 1)
                       else sc) (categories m)) (map py_lower (py_split c)) = id"
    by (rule fold_id) (rule inner)
  then show ?thesis
    by (simp add: compute_scores_def Let_def)
qed

lemma max_by_score_zeros:
  assumes "xs \<noteq> []" and "\<forall>p \<in> set xs. snd p = 0"
  shows "\<exists>k. max_by_score xs = Inr (k, 0)"
proof (cases "max_by_score xs")
  case (Inl e)
  with assms(1) show ?thesis by (simp add: max_by_score_Inl)
next
  case (Inr p)
  then have "p \<in> set xs" by (rule max_by_score_mem)
  with assms(2) have "snd p = 0" by simp
  with Inr show ?thesis by (cases p) auto
qed

lemma categorize_notes_no_match:
  assumes "categories m \<noteq> []" and "no_keyword_match m c"
  shows "categorize_notes m c = Inr (lit ''Others'')"
proof -
  from assms(1)
  have "\<exists>k. max_by_score (map (\<lambda>(cat, keywords). (cat, 0::int)) (categories m)) = Inr (k, 0)"
    by (intro max_by_score_zeros) auto
  then show ?thesis
    by (auto simp: categorize_notes_def compute_scores_no_match [OF assms(2)])
qed

lemma add_note_no_match_weights:
  assumes "categories m \<noteq> []" and "no_keyword_match m c"
  shows "\<exists>m' w'. add_note m w c = Inr (m', w') \<and> keyword_weights m' = keyword_weights m"
proof (cases "py_strip c = []")
  case True
  then show ?thesis by (simp add: add_note_def)
next
  case False
  from assms(2) have nm: "no_keyword_match m (py_strip c)"
    by (simp add: no_keyword_match_def py_split_py_strip)
  with assms(1) have cat: "categorize_notes m (py_strip c) = Inr (lit ''Others'')"
    by (rule categorize_notes_no_match)
  let ?m1 = "m\<lparr>notes := notes m @ [\<lparr>content = py_strip c, category = lit ''Others''\<rparr>]\<rparr>"
  have none: "\<not> (k \<in> set (py_split (py_strip c))
                \<and> k \<in> set (categories_get (categories m) (lit ''Others'')))" for k
  proof
    assume k: "k \<in> set (py_split (py_strip c))
                \<and> k \<in> set (categories_get (categories m) (lit ''Others''))"
    show False
    proof (cases "map_of (categories m) (lit ''Others'')")
      case None
      with k show False by (simp add: categories_get_def)
    next
      case (Some kws)
      with k have "k \<in> set kws" by (simp add: categories_get_def)
      then have low: "py_lower k \<in> set (map py_lower kws)" by simp
      from Some have mem: "(lit ''Others'', kws) \<in> set (categories m)" by (rule map_of_SomeD)
      from nm k
      have "list_all (\<lambda>(cat, keywords). py_lower k \<notin> set (map py_lower keywords))
              (categories m)"
        by (simp add: no_keyword_match_def list_all_iff)
      with mem have "py_lower k \<notin> set (map py_lower kws)"
        by (simp add: list_all_iff) blast
      with low show False by simp
    qed
  qed
  have "keyword_weights (fst (update_keyword_weights ?m1 w (py_split (py_strip c)) (lit ''Others'')))
        = keyword_weights m"
    by (simp add: update_keyword_weights_weights none)
  with False cat show ?thesis
    by (simp add: add_note_def Let_def case_prod_unfold)
qed

subsection \<open>Without any category\<close>

text \<open>
  C4. The claim: in every state, for a content none of whose tokens matches a keyword
  of a registered category, \<open>categorize_notes\<close> returns \<open>Others\<close> and \<open>add_note\<close> leaves
  the keyword weights unchanged. On the store that \<open>__init__\<close> builds no token of
  \<open>hello\<close> matches a keyword, there being none, and \<open>categorize_notes\<close> raises
  \<open>ValueError\<close> instead of returning \<open>Others\<close>.
\<close>

theorem categorize_no_match_raises_without_categories:
  "no_keyword_match (NoteManager_init f) (lit ''hello'') \<and>
   categorize_notes (NoteManager_init f) (lit ''hello'') = Inl ValueError \<and>
   categorize_notes (NoteManager_init f) (lit ''hello'') \<noteq> Inr (lit ''Others'')"
  by (simp add: no_keyword_match_def categorize_notes_def compute_scores_def
      NoteManager_init_def fold_skip eval_str)

end
